theory Spec2Isabelle
  imports Main "HOL-Library.Word"
begin

unbundle bit_operations_syntax

section \<open>Data model of sqlitetools.py\<close>

text \<open>
  The module is Python 2: a buffer is a \<^verbatim>\<open>str\<close> of bytes read with \<^verbatim>\<open>ord\<close>, and
  \<^verbatim>\<open>/\<close> on two integers is floor division. A buffer is modelled as a list of 8-bit
  words, \<^verbatim>\<open>ord(c)\<close> as \<open>uint c\<close>, and Python's unbounded integers as \<open>int\<close>.
  Offsets are \<open>int\<close> as well, because a negative offset is a legal Python index.
\<close>

type_synonym byte = "8 word"

text \<open>
  The module raises one exception class of its own, \<^verbatim>\<open>SqliteParseError\<close>, told apart
  only by its message. \<open>reason\<close> names each raise site:
  \<^item> \<open>MissingMarker\<close>: "B-Tree Leaf Cell header 0x0d not present"
  \<^item> \<open>HeaderTooShort\<close>: "Header length {} too small"
  \<^item> \<open>HeaderTooLongForCols\<close>: "Header length of {} is too long for {} cols"
  \<^item> \<open>HeaderTooShortForCols\<close>: "Header length of {} too short for {} cols"
  \<^item> \<open>HeaderLengthMismatch\<close>: "Record header was not the correct length."
  \<^item> \<open>ColumnCountMismatch\<close>: "Expected {} columns, got {}"
  \<^item> \<open>TypeConstraintViolation\<close>: "Serial type for col {} was {}, not one of the expected {}"
  \<^item> \<open>PayloadLengthMismatch\<close>: "Payload length field does not match actual length of payload. ..."
  \<^item> \<open>MalformedVarint\<close>: "Varint ended with 0x80 bit set but was not 9 bytes."
  \<^item> \<open>BufferExhausted\<close>: "Ran off end of buffer while reading varint"
  \<^item> \<open>ReservedSerialType\<close>: "Reserved serial_type {} used"
  \<^item> \<open>ColumnOverrun\<close>: "Tried to read column value off end of buffer."
\<close>

datatype reason =
    MissingMarker
  | HeaderTooShort
  | HeaderTooLongForCols
  | HeaderTooShortForCols
  | HeaderLengthMismatch
  | ColumnCountMismatch
  | TypeConstraintViolation
  | PayloadLengthMismatch
  | MalformedVarint
  | BufferExhausted
  | ReservedSerialType
  | ColumnOverrun

text \<open>Every exception the module can raise, the interpreter's own included.\<close>

datatype error =
    SqliteParseError reason
  | IndexError
  | NameError
  | NotImplementedError
  | ValueError
  | AssertionError
  | StructError

text \<open>
  A column value: \<^verbatim>\<open>None\<close>, an integer, the float \<^verbatim>\<open>struct.unpack('>d', ...)\<close> gives
  (kept as its eight raw bytes, the IEEE-754 reading is not modelled), or a slice of
  the buffer (blob and text columns alike).
\<close>

datatype val = VNone | VInt int | VFloat "byte list" | VBytes "byte list"

text \<open>
  A member of a \<^verbatim>\<open>type_sets\<close> entry: an integer serial type or a string such as
  \<^verbatim>\<open>"string"\<close> and \<^verbatim>\<open>"blob"\<close>.
\<close>

datatype member = IntMember int | StrMember string

type_synonym type_set = "member set"

section \<open>Python primitives\<close>

text \<open>\<^verbatim>\<open>xs[i]\<close>: a negative index counts from the end, anything out of range raises.\<close>

definition py_index :: "'a list \<Rightarrow> int \<Rightarrow> error + 'a" where
  "py_index xs i =
     (if 0 \<le> i \<and> i < int (length xs) then Inr (xs ! nat i)
      else if i < 0 \<and> - int (length xs) \<le> i then Inr (xs ! nat (i + int (length xs)))
      else Inl IndexError)"

text \<open>\<^verbatim>\<open>xs[a:b]\<close>: both bounds wrap when negative and are clamped to the list; never raises.\<close>

definition py_bound :: "int \<Rightarrow> int \<Rightarrow> int" where
  "py_bound n a = (if a < 0 then max 0 (a + n) else min a n)"

definition py_slice :: "'a list \<Rightarrow> int \<Rightarrow> int \<Rightarrow> 'a list" where
  "py_slice xs a b =
     (let lo = py_bound (int (length xs)) a; hi = py_bound (int (length xs)) b
      in take (nat (hi - lo)) (drop (nat lo) xs))"

text \<open>\<^verbatim>\<open>''.join(map(str, bits))\<close> for a list of integers that are 0 or 1.\<close>

definition join_bits :: "int list \<Rightarrow> string" where
  "join_bits bits = map (\<lambda>b. if b = 0 then CHR ''0'' else CHR ''1'') bits"

text \<open>
  \<^verbatim>\<open>int(s, 2)\<close> on a string of binary digits, read most significant digit first
  (\<open>bit_step\<close> takes in one digit); an empty string or another character raises
  \<^verbatim>\<open>ValueError\<close>.
\<close>

definition bit_step :: "int \<Rightarrow> char \<Rightarrow> int" where
  "bit_step acc c = 2 * acc + (if c = CHR ''1'' then 1 else 0)"

definition py_int2 :: "string \<Rightarrow> error + int" where
  "py_int2 s =
     (if s = [] \<or> \<not> list_all (\<lambda>c. c = CHR ''0'' \<or> c = CHR ''1'') s then Inl ValueError
      else Inr (foldl bit_step 0 s))"

text \<open>\<^verbatim>\<open>bin(i)[2:]\<close> for \<open>i \<ge> 0\<close>: the binary digits, most significant first, \<open>''0''\<close> for 0.\<close>

fun bin_digits :: "nat \<Rightarrow> string" where
  "bin_digits n =
     (if n < 2 then [if n = 1 then CHR ''1'' else CHR ''0'']
      else bin_digits (n div 2) @ [if n mod 2 = 1 then CHR ''1'' else CHR ''0''])"

declare bin_digits.simps [simp del]

text \<open>\<^verbatim>\<open>chr(n)\<close>: a one-byte string, \<^verbatim>\<open>ValueError\<close> outside \<open>range(256)\<close>.\<close>

definition py_chr :: "int \<Rightarrow> error + byte list" where
  "py_chr n = (if 0 \<le> n \<and> n < 256 then Inr [word_of_int n] else Inl ValueError)"

section \<open>twos_comp\<close>

text \<open>
  \<^verbatim>\<open>
  def twos_comp(uint, n_bits):
      if uint >> (n_bits - 1):  # Negative
          return -( (~(uint - 1)) & ((1 << n_bits) - 1) )
      else:
          return uint  # Positive
  \<close>
  A negative shift count raises \<^verbatim>\<open>ValueError\<close>.
\<close>

definition twos_comp :: "int \<Rightarrow> int \<Rightarrow> error + int" where
  "twos_comp u n_bits =
     (if n_bits - 1 < 0 then Inl ValueError
      else if drop_bit (nat (n_bits - 1)) u \<noteq> 0
        then Inr (- ((NOT (u - 1)) AND (push_bit (nat n_bits) 1 - 1)))
      else Inr u)"

section \<open>parse_varint\<close>

text \<open>
  The inner loop of \<^verbatim>\<open>parse_varint\<close>:
  \<^verbatim>\<open>for j in range(8 if i==8 else 6, -1, -1): bits.append((byte >> j) & 1)\<close>.
  \<^verbatim>\<open>range(8, -1, -1)\<close> is 8, 7, ..., 0 and \<^verbatim>\<open>range(6, -1, -1)\<close> is 6, 5, ..., 0.
\<close>

definition varint_bits :: "nat \<Rightarrow> int \<Rightarrow> int list" where
  "varint_bits i byte =
     map (\<lambda>j. drop_bit j byte AND 1) (rev [0 ..< Suc (if i = 8 then 8 else 6)])"

text \<open>
  The outer loop \<^verbatim>\<open>for i in range(9)\<close>; the result is the bit list and the last
  value of \<open>i\<close>.
\<close>

function parse_varint_loop :: "byte list \<Rightarrow> int \<Rightarrow> nat \<Rightarrow> int list \<Rightarrow> error + (int list \<times> nat)" where
  "parse_varint_loop buf start i bits =
     (if start + int i \<ge> int (length buf) then Inl (SqliteParseError BufferExhausted)
      else
        (case py_index buf (start + int i) of
           Inl e \<Rightarrow> Inl e
         | Inr c \<Rightarrow>
             (if uint c AND 0x80 \<noteq> 0x80 then Inr (bits @ varint_bits i (uint c), i)
              else if Suc i < 9 then parse_varint_loop buf start (Suc i) (bits @ varint_bits i (uint c))
              else Inr (bits @ varint_bits i (uint c), i))))"
  by pat_completeness auto
termination
  by (relation "measure (\<lambda>(buf, start, i, bits). 9 - i)") auto

declare parse_varint_loop.simps [simp del]

definition parse_varint :: "byte list \<Rightarrow> int \<Rightarrow> error + (int \<times> int)" where
  "parse_varint buf start =
     (case parse_varint_loop buf start 0 [] of
        Inl e \<Rightarrow> Inl e
      | Inr (bits, i) \<Rightarrow>
          (case py_int2 (join_bits bits) of
             Inl e \<Rightarrow> Inl e
           | Inr x \<Rightarrow>
               (case twos_comp x 64 of
                  Inl e \<Rightarrow> Inl e
                | Inr v \<Rightarrow> Inr (v, int i + 1))))"

section \<open>encode_varint\<close>

definition encode_twos_comp_bits :: "int \<Rightarrow> int \<Rightarrow> error + string" where
  "encode_twos_comp_bits i n_bits =
     (if i < 0 then Inl NotImplementedError
      else if n_bits - 1 < 0 then Inl ValueError
      else if i \<ge> push_bit (nat (n_bits - 1)) 1 then Inl ValueError
      else Inr (bin_digits (nat i)))"

definition encode_varint :: "int \<Rightarrow> error + byte list" where
  "encode_varint i =
     (case encode_twos_comp_bits i 64 of
        Inl e \<Rightarrow> Inl e
      | Inr i_bits \<Rightarrow>
          (if length i_bits > 7 then Inl NotImplementedError
           else
             (case py_int2 (CHR ''0'' # i_bits) of
                Inl e \<Rightarrow> Inl e
              | Inr n \<Rightarrow> py_chr n)))"

section \<open>parse_column\<close>

text \<open>
  \<^verbatim>\<open>
  num = 0
  for i, byte in enumerate(buf[::-1]):
      num += ord(byte) * i**256
  return twos_comp(num, n_bits)
  \<close>
  with \<^verbatim>\<open>n_bits = len(buf)*8\<close> when it is not given.
\<close>

definition parse_twos_comp_bytes :: "byte list \<Rightarrow> int option \<Rightarrow> error + int" where
  "parse_twos_comp_bytes buf n_bits =
     twos_comp
       (foldl (\<lambda>num (i, byte). num + uint byte * int i ^ 256) 0 (enumerate 0 (rev buf)))
       (case n_bits of None \<Rightarrow> int (length buf) * 8 | Some n \<Rightarrow> n)"

definition len_check :: "byte list \<Rightarrow> int \<Rightarrow> int \<Rightarrow> error + unit" where
  "len_check buf start l =
     (if l > int (length buf) - start then Inl (SqliteParseError ColumnOverrun) else Inr ())"

text \<open>
  The branches for serial types 1 to 6 differ in the byte count only:
  \<^verbatim>\<open>len_check(k); return parse_twos_comp_bytes(buf[start:start+k]), k\<close>.
\<close>

definition int_column :: "byte list \<Rightarrow> int \<Rightarrow> int \<Rightarrow> error + (val \<times> int)" where
  "int_column buf start k =
     (case len_check buf start k of
        Inl e \<Rightarrow> Inl e
      | Inr _ \<Rightarrow>
          (case parse_twos_comp_bytes (py_slice buf start (start + k)) None of
             Inl e \<Rightarrow> Inl e
           | Inr v \<Rightarrow> Inr (VInt v, k)))"

text \<open>
  The two variable-width branches are the same code,
  \<^verbatim>\<open>l = (serial_type - 13) / 2; len_check(l); return buf[start:start+l], l\<close>.
\<close>

definition bytes_column :: "int \<Rightarrow> byte list \<Rightarrow> int \<Rightarrow> error + (val \<times> int)" where
  "bytes_column serial_type buf start =
     (case len_check buf start ((serial_type - 13) div 2) of
        Inl e \<Rightarrow> Inl e
      | Inr _ \<Rightarrow>
          Inr (VBytes (py_slice buf start (start + (serial_type - 13) div 2)),
               (serial_type - 13) div 2))"

definition parse_column :: "int \<Rightarrow> byte list \<Rightarrow> int \<Rightarrow> error + (val \<times> int)" where
  "parse_column serial_type buf start =
     (if serial_type = 0 then Inr (VNone, 0)
      else if serial_type = 1 then int_column buf start 1
      else if serial_type = 2 then int_column buf start 2
      else if serial_type = 3 then int_column buf start 3
      else if serial_type = 4 then int_column buf start 4
      else if serial_type = 5 then int_column buf start 6
      else if serial_type = 6 then int_column buf start 8
      else if serial_type = 7 then
        (case len_check buf start 8 of
           Inl e \<Rightarrow> Inl e
         | Inr _ \<Rightarrow>
             (if length (py_slice buf start (start + 8)) = 8
              then Inr (VFloat (py_slice buf start (start + 8)), 8)
              else Inl StructError))
      else if serial_type = 8 then Inr (VInt 0, 0)
      else if serial_type = 9 then Inr (VInt 1, 0)
      else if serial_type = 10 \<or> serial_type = 11 then Inl (SqliteParseError ReservedSerialType)
      else if serial_type AND 1 = 0 then bytes_column serial_type buf start
      else if serial_type AND 1 = 1 then bytes_column serial_type buf start
      else Inl AssertionError)"

section \<open>parse_record\<close>

text \<open>
  \<^verbatim>\<open>parse_varint\<close> returns a width of \<open>i + 1\<close> with \<open>i\<close> in \<open>range(9)\<close>; the serial
  type loop below terminates because of it.
\<close>

lemma parse_varint_loop_index:
  "parse_varint_loop buf start i bits = Inr (bits', k) \<Longrightarrow> i \<le> k \<and> (i \<le> 8 \<longrightarrow> k \<le> 8)"
proof (induction buf start i bits rule: parse_varint_loop.induct)
  case (1 buf start i bits)
  note eq = parse_varint_loop.simps [of buf start i bits]
  show ?case
  proof (cases "start + int i \<ge> int (length buf)")
    case True
    with eq "1.prems" show ?thesis by simp
  next
    case inb: False
    show ?thesis
    proof (cases "py_index buf (start + int i)")
      case (Inl e)
      with eq inb "1.prems" show ?thesis by simp
    next
      case (Inr c)
      show ?thesis
      proof (cases "uint c AND 0x80 \<noteq> 0x80")
        case True
        with eq inb Inr "1.prems" show ?thesis by simp
      next
        case cont: False
        show ?thesis
        proof (cases "Suc i < 9")
          case True
          with eq inb Inr cont "1.prems"
          have "parse_varint_loop buf start (Suc i) (bits @ varint_bits i (uint c)) = Inr (bits', k)"
            by simp
          from "1.IH" [OF inb Inr _ True this] cont True show ?thesis by simp
        next
          case False
          with eq inb Inr cont "1.prems" show ?thesis by simp
        qed
      qed
    qed
  qed
qed

lemma parse_varint_width:
  assumes "parse_varint buf start = Inr (v, l)"
  shows "1 \<le> l \<and> l \<le> 9"
proof -
  from assms obtain bits k where loop: "parse_varint_loop buf start 0 [] = Inr (bits, k)"
    and l: "l = int k + 1"
    unfolding parse_varint_def by (auto split: sum.splits)
  from parse_varint_loop_index [OF loop] have "k \<le> 8" by simp
  with l show ?thesis by simp
qed

text \<open>
  Lines 47 to 80: the marker byte, the three varints and the checks on the header
  length. The result is \<open>(payload_len, header_start, header_len, i)\<close>.
\<close>

definition header_len_check :: "int \<Rightarrow> int option \<Rightarrow> error + unit" where
  "header_len_check header_len n_cols =
     (if header_len < 2 then Inl (SqliteParseError HeaderTooShort)
      else
        (case n_cols of
           None \<Rightarrow> Inr ()
         | Some n \<Rightarrow>
             (if header_len > 9 * (1 + n) then Inl (SqliteParseError HeaderTooLongForCols)
              else if header_len < 1 * (1 + n) then Inl (SqliteParseError HeaderTooShortForCols)
              else Inr ())))"

definition parse_prefix :: "byte list \<Rightarrow> int \<Rightarrow> int option \<Rightarrow> error + (int \<times> int \<times> int \<times> int)" where
  "parse_prefix buf start n_cols =
     (case py_index buf start of
        Inl e \<Rightarrow> Inl e
      | Inr c \<Rightarrow>
          (if uint c = 0x0d then Inl (SqliteParseError MissingMarker)
           else
             (case parse_varint buf (start + 1) of
                Inl e \<Rightarrow> Inl e
              | Inr (payload_len, l1) \<Rightarrow>
                  (case parse_varint buf (start + 1 + l1) of
                     Inl e \<Rightarrow> Inl e
                   | Inr (row_id, l2) \<Rightarrow>
                       (case parse_varint buf (start + 1 + l1 + l2) of
                          Inl e \<Rightarrow> Inl e
                        | Inr (header_len, l3) \<Rightarrow>
                            (case header_len_check header_len n_cols of
                               Inl e \<Rightarrow> Inl e
                             | Inr _ \<Rightarrow>
                                 Inr (payload_len, start + 1 + l1 + l2, header_len,
                                      start + 1 + l1 + l2 + l3)))))))"

text \<open>
  Lines 83 to 87:
  \<^verbatim>\<open>
  while i < header_start + header_len:
      stype, l = parse_varint(buf, i)
      i += l
      serial_types.append(stype)
  \<close>
  \<open>limit\<close> is \<open>header_start + header_len\<close>.
\<close>

function parse_serial_types :: "byte list \<Rightarrow> int \<Rightarrow> int \<Rightarrow> int list \<Rightarrow> error + (int \<times> int list)" where
  "parse_serial_types buf limit i serial_types =
     (if i < limit then
        (case parse_varint buf i of
           Inl e \<Rightarrow> Inl e
         | Inr (stype, l) \<Rightarrow> parse_serial_types buf limit (i + l) (serial_types @ [stype]))
      else Inr (i, serial_types))"
  by pat_completeness auto
termination
proof (relation "measure (\<lambda>(buf, limit, i, serial_types). nat (limit - i))")
  show "wf (measure (\<lambda>(buf, limit, i, serial_types). nat (limit - i)))" by simp
next
  fix buf :: "byte list" and limit i :: int and serial_types :: "int list"
    and x2 :: "int \<times> int" and stype l :: int
  assume lt: "i < limit" and pv: "parse_varint buf i = Inr x2" and x2: "(stype, l) = x2"
  from pv x2 have "parse_varint buf i = Inr (stype, l)" by simp
  then have "1 \<le> l" using parse_varint_width by blast
  with lt show "((buf, limit, i + l, serial_types @ [stype]), (buf, limit, i, serial_types))
      \<in> measure (\<lambda>(buf, limit, i, serial_types). nat (limit - i))"
    by simp
qed

declare parse_serial_types.simps [simp del]

text \<open>
  Lines 47 to 96, the whole header: prefix, serial types, "Check: Record Length" and
  "Check: n_cols". The result is \<open>(payload_len, header_start, i, serial_types)\<close>.
\<close>

definition parse_header :: "byte list \<Rightarrow> int \<Rightarrow> int option \<Rightarrow> error + (int \<times> int \<times> int \<times> int list)" where
  "parse_header buf start n_cols =
     (case parse_prefix buf start n_cols of
        Inl e \<Rightarrow> Inl e
      | Inr (payload_len, header_start, header_len, i0) \<Rightarrow>
          (case parse_serial_types buf (header_start + header_len) i0 [] of
             Inl e \<Rightarrow> Inl e
           | Inr (i, serial_types) \<Rightarrow>
               (if i \<noteq> header_start + header_len then Inl (SqliteParseError HeaderLengthMismatch)
                else
                  (case n_cols of
                     None \<Rightarrow> Inr (payload_len, header_start, i, serial_types)
                   | Some n \<Rightarrow>
                       (if int (length serial_types) \<noteq> n
                        then Inl (SqliteParseError ColumnCountMismatch)
                        else Inr (payload_len, header_start, i, serial_types))))))"

text \<open>
  Lines 100 to 110, the loop over \<^verbatim>\<open>zip(serial_types, type_sets)\<close>. The \<^verbatim>\<open>raise\<close>
  formats its message with \<^verbatim>\<open>expected_type\<close>, a name bound nowhere in the module, so
  evaluating the argument raises \<^verbatim>\<open>NameError\<close> before any \<^verbatim>\<open>SqliteParseError\<close>
  is built. In Python \<^verbatim>\<open>&\<close> binds tighter than \<^verbatim>\<open>==\<close>.
\<close>

fun check_type_sets :: "(int \<times> type_set option) list \<Rightarrow> error + unit" where
  "check_type_sets [] = Inr ()"
| "check_type_sets ((serial_type, None) # rest) = check_type_sets rest"
| "check_type_sets ((serial_type, Some type_set) # rest) =
     (if StrMember ''string'' \<in> type_set \<and> serial_type \<ge> 13 \<and> serial_type AND 1 = 0
        then check_type_sets rest
      else if StrMember ''blob'' \<in> type_set \<and> serial_type \<ge> 12 \<and> serial_type AND 1 = 1
        then check_type_sets rest
      else if IntMember serial_type \<notin> type_set then Inl NameError
      else check_type_sets rest)"

definition check_types :: "int list \<Rightarrow> type_set option list option \<Rightarrow> error + unit" where
  "check_types serial_types type_sets =
     (case type_sets of
        None \<Rightarrow> Inr ()
      | Some ts \<Rightarrow> check_type_sets (zip serial_types ts))"

text \<open>Lines 113 to 117, the loop over the serial types.\<close>

fun parse_columns :: "byte list \<Rightarrow> int list \<Rightarrow> int \<Rightarrow> val list \<Rightarrow> error + (int \<times> val list)" where
  "parse_columns buf [] i vals = Inr (i, vals)"
| "parse_columns buf (stype # rest) i vals =
     (case parse_column stype buf i of
        Inl e \<Rightarrow> Inl e
      | Inr (v, l) \<Rightarrow> parse_columns buf rest (i + l) (vals @ [v]))"

definition parse_record ::
  "byte list \<Rightarrow> int \<Rightarrow> int option \<Rightarrow> type_set option list option \<Rightarrow> error + (int list \<times> val list)" where
  "parse_record buf start n_cols type_sets =
     (case parse_header buf start n_cols of
        Inl e \<Rightarrow> Inl e
      | Inr (payload_len, header_start, i0, serial_types) \<Rightarrow>
          (case check_types serial_types type_sets of
             Inl e \<Rightarrow> Inl e
           | Inr _ \<Rightarrow>
               (case parse_columns buf serial_types i0 [] of
                  Inl e \<Rightarrow> Inl e
                | Inr (i, vals) \<Rightarrow>
                    (if i - header_start \<noteq> payload_len
                     then Inl (SqliteParseError PayloadLengthMismatch)
                     else Inr (serial_types, vals)))))"

section \<open>count_varints\<close>

text \<open>
  The inner loop
  \<^verbatim>\<open>
  for j in range(8):
      if ord(buf[pos-1]) & 0x80 != 0x80:
          break
      pos -= 1
  \<close>
  The result is \<open>pos\<close> and the value \<open>j\<close> has when the loop is left.
\<close>

function scan_back :: "byte list \<Rightarrow> int \<Rightarrow> nat \<Rightarrow> error + (int \<times> nat)" where
  "scan_back buf pos j =
     (case py_index buf (pos - 1) of
        Inl e \<Rightarrow> Inl e
      | Inr c \<Rightarrow>
          (if uint c AND 0x80 \<noteq> 0x80 then Inr (pos, j)
           else if Suc j < 8 then scan_back buf (pos - 1) (Suc j)
           else Inr (pos - 1, j)))"
  by pat_completeness auto
termination
  by (relation "measure (\<lambda>(buf, pos, j). 8 - j)") auto

declare scan_back.simps [simp del]

text \<open>The outer loop \<^verbatim>\<open>for i in range(n)\<close>, by the number of rounds left.\<close>

fun count_varints_loop :: "byte list \<Rightarrow> int \<Rightarrow> nat \<Rightarrow> error + int" where
  "count_varints_loop buf pos 0 = Inr pos"
| "count_varints_loop buf pos (Suc k) =
     (case py_index buf (pos - 1) of
        Inl e \<Rightarrow> Inl e
      | Inr c \<Rightarrow>
          (case scan_back buf (pos - 1) 0 of
             Inl e \<Rightarrow> Inl e
           | Inr (pos', j) \<Rightarrow>
               (if uint c AND 0x80 \<noteq> 0 \<and> int j + 1 \<noteq> 9
                then Inl (SqliteParseError MalformedVarint)
                else count_varints_loop buf pos' k)))"

definition count_varints :: "byte list \<Rightarrow> int \<Rightarrow> int \<Rightarrow> bool \<Rightarrow> error + int" where
  "count_varints buf start n backward =
     (if \<not> n > 0 then Inl AssertionError
      else if \<not> backward then Inl NotImplementedError
      else count_varints_loop buf start (nat n))"

section \<open>The marker check\<close>

lemma py_index_Cons_0: "py_index (x # xs) 0 = Inr x"
  by (simp add: py_index_def)

text \<open>
  Claim C1. The claim: parsing goes on past the first step when the byte at \<open>start\<close> is
  the leaf-cell marker \<open>0x0d\<close>, and fails with the missing-marker error exactly when it
  is not. The docstring of \<^verbatim>\<open>parse_record\<close> says the same ("buf[start] should always be
  0x0d"), and the message of the error is "B-Tree Leaf Cell header 0x0d not present".
  The test in the code is \<^verbatim>\<open>if ord(buf[i]) == 0x0d: raise ...\<close>: every buffer that begins
  with the marker is rejected with that very error, whatever follows the marker and
  whatever the optional arguments are.
\<close>

theorem marker_0x0d_is_rejected:
  "parse_record (0x0d # rest) 0 n_cols type_sets = Inl (SqliteParseError MissingMarker)"
  by (simp add: parse_record_def parse_header_def parse_prefix_def py_index_Cons_0)

text \<open>
  A record whose first byte is anything but the marker gets past the first step: here
  the byte is \<open>0x00\<close>, the payload length 3, the row id 0, the header length 2 and the
  one column has serial type 1.
\<close>

lemma other_marker_is_accepted:
  "parse_record [0x00, 3, 0, 2, 1, 0x2A] 0 None None = Inr ([1], [VInt 0])"
  by code_simp

section \<open>The varint codec\<close>

subsection \<open>Decoding\<close>

text \<open>
  The bits \<^verbatim>\<open>parse_varint\<close> appends for one byte, read back by \<^verbatim>\<open>int(..., 2)\<close>, are
  the low bits of the byte: \<open>k\<close> bits from bit \<open>k - 1\<close> down to bit 0 give \<open>take_bit k\<close>.
\<close>

lemma and_one_of_bool: "drop_bit j (v::int) AND 1 = of_bool (bit v j)"
  by (simp add: and_one_eq bit_iff_odd_drop_bit mod_2_eq_odd)

lemma foldl_join_bits:
  "foldl bit_step acc (join_bits (map (\<lambda>j. drop_bit j v AND 1) (rev [0 ..< k]))) = acc * 2 ^ k + take_bit k v"
proof (induction k arbitrary: acc)
  case 0
  show ?case by (simp add: join_bits_def)
next
  case (Suc k)
  have "foldl bit_step acc (join_bits (map (\<lambda>j. drop_bit j v AND 1) (rev [0 ..< Suc k])))
      = foldl bit_step (2 * acc + of_bool (bit v k)) (join_bits (map (\<lambda>j. drop_bit j v AND 1) (rev [0 ..< k])))"
    by (simp add: join_bits_def bit_step_def and_one_of_bool)
  also have "\<dots> = (2 * acc + of_bool (bit v k)) * 2 ^ k + take_bit k v"
    by (rule Suc.IH)
  also have "\<dots> = acc * 2 ^ Suc k + take_bit (Suc k) v"
    by (simp add: take_bit_Suc_from_most algebra_simps)
  finally show ?case .
qed

lemma join_bits_digits: "list_all (\<lambda>c. c = CHR ''0'' \<or> c = CHR ''1'') (join_bits bits)"
  by (induction bits) (simp_all add: join_bits_def)

lemma py_int2_varint_bits:
  "py_int2 (join_bits (varint_bits i byte)) = Inr (take_bit (Suc (if i = 8 then 8 else 6)) byte)"
proof -
  have ne: "join_bits (varint_bits i byte) \<noteq> []"
    by (simp add: join_bits_def varint_bits_def)
  show ?thesis
    unfolding py_int2_def using ne join_bits_digits [of "varint_bits i byte"]
    by (simp add: varint_bits_def foldl_join_bits del: upt_Suc)
qed

lemma twos_comp_small:
  assumes "0 \<le> u" "u < 2 ^ 63"
  shows "twos_comp u 64 = Inr u"
proof -
  have "drop_bit 63 u = 0"
    using assms by (simp add: drop_bit_eq_div)
  then show ?thesis by (simp add: twos_comp_def)
qed

lemma parse_varint_one_byte:
  assumes "uint c AND 0x80 \<noteq> 0x80"
  shows "parse_varint (c # rest) 0 = Inr (take_bit 7 (uint c), 1)"
proof -
  have loop: "parse_varint_loop (c # rest) 0 0 [] = Inr (varint_bits 0 (uint c), 0)"
    using assms by (subst parse_varint_loop.simps) (simp add: py_index_Cons_0)
  have "take_bit 7 (uint c) < (2::int) ^ 7" by (rule take_bit_int_less_exp)
  then have "take_bit 7 (uint c) < (2::int) ^ 63" by simp
  then have tc: "twos_comp (take_bit 7 (uint c)) 64 = Inr (take_bit 7 (uint c))"
    by (intro twos_comp_small) simp_all
  show ?thesis
    by (simp add: parse_varint_def loop py_int2_varint_bits tc)
qed


subsection \<open>Encoding\<close>

text \<open>
  \<^verbatim>\<open>bin(i)[2:]\<close> has only binary digits, has at most \<open>k\<close> of them exactly when
  \<open>i < 2 ^ k\<close>, and \<^verbatim>\<open>int('0' + bin(i)[2:], 2)\<close> is \<open>i\<close> again.
\<close>

lemma bin_digits_digits: "list_all (\<lambda>c. c = CHR ''0'' \<or> c = CHR ''1'') (bin_digits n)"
proof (induction n rule: bin_digits.induct)
  case (1 n)
  show ?case
  proof (cases "n < 2")
    case True
    then show ?thesis by (subst bin_digits.simps) simp
  next
    case False
    with 1 show ?thesis by (subst bin_digits.simps) simp
  qed
qed

lemma bin_digits_length: "0 < k \<Longrightarrow> length (bin_digits n) \<le> k \<longleftrightarrow> n < 2 ^ k"
proof (induction n arbitrary: k rule: bin_digits.induct)
  case (1 n)
  show ?case
  proof (cases "n < 2")
    case True
    have "(2::nat) ^ 1 \<le> 2 ^ k" using "1.prems" by (intro power_increasing) simp_all
    with True have "n < 2 ^ k" by simp
    moreover have "length (bin_digits n) = 1" using True by (subst bin_digits.simps) simp
    ultimately show ?thesis using "1.prems" by simp
  next
    case False
    have len: "length (bin_digits n) = Suc (length (bin_digits (n div 2)))"
      using False by (subst bin_digits.simps) simp
    show ?thesis
    proof (cases k)
      case 0
      with "1.prems" show ?thesis by simp
    next
      case (Suc k')
      show ?thesis
      proof (cases "k' = 0")
        case True
        have "0 < length (bin_digits (n div 2))"
          by (subst bin_digits.simps) simp
        with True Suc False len show ?thesis by simp
      next
        case k': False
        then have "length (bin_digits (n div 2)) \<le> k' \<longleftrightarrow> n div 2 < 2 ^ k'"
          using "1.IH" [OF False, of k'] by simp
        moreover have "n div 2 < 2 ^ k' \<longleftrightarrow> n < 2 ^ Suc k'"
          by (simp add: less_mult_imp_div_less div_less_iff_less_mult mult.commute)
        ultimately show ?thesis using len Suc by simp
      qed
    qed
  qed
qed

lemma foldl_bin_digits:
  "foldl bit_step acc (bin_digits n) = acc * 2 ^ length (bin_digits n) + int n"
proof (induction n arbitrary: acc rule: bin_digits.induct)
  case (1 n)
  show ?case
  proof (cases "n < 2")
    case True
    then have "n = 0 \<or> n = 1" by auto
    then show ?thesis
      by (subst (1 2) bin_digits.simps) (auto simp: bit_step_def)
  next
    case False
    have unf: "bin_digits n = bin_digits (n div 2) @ [if n mod 2 = 1 then CHR ''1'' else CHR ''0'']"
      using False by (subst bin_digits.simps) simp
    have "foldl bit_step acc (bin_digits n)
        = 2 * (acc * 2 ^ length (bin_digits (n div 2)) + int (n div 2)) + int (n mod 2)"
      by (simp add: unf "1.IH" [OF False] bit_step_def)
    also have "\<dots> = acc * 2 ^ length (bin_digits n) + (2 * int (n div 2) + int (n mod 2))"
      by (simp add: unf algebra_simps)
    also have "2 * int (n div 2) + int (n mod 2) = int n"
      by (metis mult_div_mod_eq of_nat_add of_nat_mult of_nat_numeral)
    finally show ?thesis .
  qed
qed

lemma py_int2_bin_digits: "py_int2 (CHR ''0'' # bin_digits n) = Inr (int n)"
  unfolding py_int2_def using bin_digits_digits [of n]
  by (simp add: foldl_bin_digits bit_step_def)

text \<open>
  Claim C2. The claim: for every 64-bit signed integer \<open>v\<close>, \<^verbatim>\<open>encode_varint(v)\<close> succeeds
  and \<^verbatim>\<open>parse_varint\<close> of the result returns \<open>v\<close> and the minimal width. The encoder stops
  at two explicit guards, \<^verbatim>\<open>if i < 0: raise NotImplementedError()\<close> and
  \<^verbatim>\<open>if len(i_bits) > 7: raise NotImplementedError()\<close>: a negative value and a value that
  needs more than one byte are not encoded.
\<close>

theorem encode_varint_counterexample:
  "encode_varint 128 = Inl NotImplementedError \<and> encode_varint (- 1) = Inl NotImplementedError"
  by code_simp

text \<open>
  Claim C2 as amended. For every 64-bit signed integer \<open>v\<close>, \<^verbatim>\<open>encode_varint(v)\<close> succeeds
  exactly when \<open>0 \<le> v < 128\<close>; it then returns the single byte \<open>v\<close>, and \<^verbatim>\<open>parse_varint\<close>
  of that byte returns \<open>(v, 1)\<close>, one byte being the least any varint takes. For every
  other 64-bit signed \<open>v\<close> the encoder raises \<^verbatim>\<open>NotImplementedError\<close>.
\<close>

theorem encode_decode_single_byte:
  assumes "- (2 ^ 63) \<le> v" and "v < 2 ^ 63"
  shows "encode_varint v = (if 0 \<le> v \<and> v < 128 then Inr [word_of_int v] else Inl NotImplementedError)
       \<and> (0 \<le> v \<and> v < 128 \<longrightarrow> parse_varint [word_of_int v] 0 = Inr (v, 1))"
proof (cases "v < 0")
  case True
  then show ?thesis by (simp add: encode_varint_def encode_twos_comp_bits_def)
next
  case nonneg: False
  then have bits: "encode_twos_comp_bits v 64 = Inr (bin_digits (nat v))"
    using assms by (simp add: encode_twos_comp_bits_def)
  have len: "length (bin_digits (nat v)) \<le> 7 \<longleftrightarrow> v < 128"
  proof -
    have "nat v < 128 \<longleftrightarrow> v < 128" using nonneg by linarith
    with bin_digits_length [of 7 "nat v"] show ?thesis by simp
  qed
  show ?thesis
  proof (cases "v < 128")
    case False
    with nonneg bits len show ?thesis by (simp add: encode_varint_def)
  next
    case True
    have enc: "encode_varint v = Inr [word_of_int v]"
      using nonneg True bits len by (simp add: encode_varint_def py_int2_bin_digits py_chr_def)
    have u: "uint (word_of_int v :: byte) = v"
      using nonneg True by (simp add: uint_word_of_int take_bit_int_eq_self)
    have "v AND 0x80 \<le> v" using nonneg by (simp add: AND_upper1)
    with True have "uint (word_of_int v :: byte) AND 0x80 \<noteq> 0x80" by (simp add: u)
    from parse_varint_one_byte [OF this, of "[]"]
    have "parse_varint [word_of_int v] 0 = Inr (v, 1)"
      using nonneg True by (simp add: u take_bit_int_eq_self)
    with enc nonneg True show ?thesis by simp
  qed
qed

theorem encode_decode_single_byte_witness:
  "- (2 ^ 63) \<le> (5::int) \<and> (5::int) < 2 ^ 63 \<and> 0 \<le> (5::int) \<and> (5::int) < 128
   \<and> encode_varint 5 = Inr [5] \<and> parse_varint [5] 0 = Inr (5, 1)
   \<and> - (2 ^ 63) \<le> (300::int) \<and> (300::int) < 2 ^ 63 \<and> encode_varint 300 = Inl NotImplementedError"
  using encode_decode_single_byte [of 5] encode_decode_single_byte [of 300] by simp

section \<open>Column decoding\<close>

text \<open>
  \<^verbatim>\<open>parse_twos_comp_bytes\<close> weights the byte at index \<open>i\<close> of the reversed span with
  \<^verbatim>\<open>i**256\<close>, which is 0 for the last byte of the span and 1 for the byte before it.
  A span of one byte therefore always decodes to 0.
\<close>

lemma parse_twos_comp_bytes_single: "parse_twos_comp_bytes [b] None = Inr 0"
  by (simp add: parse_twos_comp_bytes_def twos_comp_def)

lemma int_column_one_byte: "parse_column 1 [b] 0 = Inr (VInt 0, 1)"
  by (simp add: parse_column_def int_column_def len_check_def py_slice_def py_bound_def
      parse_twos_comp_bytes_single)

text \<open>
  Claim C3. The claim: a column of serial type 1 to 6 is the big-endian two's-complement
  integer held in its byte span, so that a record with one column of serial type 1 and
  the data byte \<open>0x2A\<close> decodes to 42; the docstring of \<^verbatim>\<open>parse_twos_comp_bytes\<close> promises
  "the integer represented in two's compliment". The code computes
  \<^verbatim>\<open>ord(byte) * i**256\<close> where \<^verbatim>\<open>ord(byte) * 256**i\<close> is meant: the byte \<open>0x2A\<close> decodes
  to 0, the two bytes \<open>0x01 0x00\<close> (256) decode to 1, and the record of the claim, with a
  first byte that line 50 lets through, has the single value 0.
\<close>

theorem one_byte_integer_column_decodes_to_zero:
  "parse_column 1 [0x2A] 0 = Inr (VInt 0, 1)
   \<and> parse_column 2 [0x01, 0x00] 0 = Inr (VInt 1, 2)
   \<and> parse_record [0x00, 3, 0, 2, 1, 0x2A] 0 None None = Inr ([1], [VInt 0])"
  by code_simp

text \<open>
  Claim C5. The claim: an even serial type \<open>N \<ge> 12\<close> is a blob of the next \<open>(N - 12) / 2\<close>
  bytes and has that width, and the decoder fails with the column-overrun error when
  fewer bytes remain; the comment in the branch says "BLOB that is (N-12)/2 bytes in
  length". The branch computes \<^verbatim>\<open>l = (serial_type - 13) / 2\<close>, the line of the text
  branch below it. With serial type 14 and one byte in the buffer the blob is empty and
  the width 0 where the claim has the one byte and width 1; with serial type 12 the
  width is \<open>- 1\<close> and the value is the slice \<^verbatim>\<open>buf[0:-1]\<close>.
\<close>

theorem blob_column_length:
  "parse_column 14 [0xAA] 0 = Inr (VBytes [], 0)
   \<and> parse_column 12 [1, 2, 3] 0 = Inr (VBytes [1, 2], - 1)"
  by code_simp

section \<open>Decoding a nine-byte varint\<close>

text \<open>
  Claim C6. The claim: \<^verbatim>\<open>parse_varint\<close> fails with the buffer-exhausted error or consumes
  1 to 9 bytes, and returns the low 7 bits of each of the first 8 bytes followed by all
  8 bits of a ninth byte, read as a 64-bit two's-complement integer; the comment in the
  loop says "Last byte all 8 bits are part of the int value". The width is as claimed
  (\<open>parse_varint_width\<close>) and so is the value of a one-byte varint
  (\<open>parse_varint_one_byte\<close>). For the ninth byte the loop runs
  \<^verbatim>\<open>range(8, -1, -1)\<close>, which has nine elements: it appends bit 8 of the byte, always
  0, before the eight bits, so the bit string has 65 bits. Nine bytes \<open>0xFF\<close>, the
  encoding of \<open>- 1\<close>, decode to \<open>- 257\<close>, and the nine bytes that stand for 256 decode to
  512.
\<close>

theorem nine_byte_varint_value:
  "parse_varint [0xFF, 0xFF, 0xFF, 0xFF, 0xFF, 0xFF, 0xFF, 0xFF, 0xFF] 0 = Inr (- 257, 9)
   \<and> parse_varint [0x80, 0x80, 0x80, 0x80, 0x80, 0x80, 0x80, 0x81, 0x00] 0 = Inr (512, 9)"
  by code_simp

section \<open>Checks of the record parser\<close>

text \<open>
  Claim C4. The claim: a column with a type set is accepted exactly when its serial type
  is in the set, or the set has \<^verbatim>\<open>"string"\<close> and the serial type is odd and at least 13,
  or the set has \<^verbatim>\<open>"blob"\<close> and the serial type is even and at least 12; otherwise the
  parse fails with the type-constraint error. \<^verbatim>\<open>parse_column\<close> reads an odd serial type
  as text and an even one as a blob. The check in \<^verbatim>\<open>parse_record\<close> tests
  \<^verbatim>\<open>serial_type & 1 == 0\<close> for \<^verbatim>\<open>"string"\<close> and \<^verbatim>\<open>serial_type & 1 == 1\<close> for
  \<^verbatim>\<open>"blob"\<close>, the parities exchanged, and its \<^verbatim>\<open>raise\<close> names the unbound variable
  \<^verbatim>\<open>expected_type\<close>. The record with one text column of serial type 15 parses without
  a type set; with the type set \<^verbatim>\<open>{"string"}\<close> it is rejected, and rejected with
  \<^verbatim>\<open>NameError\<close>; serial type 14, a blob, is accepted under \<^verbatim>\<open>{"string"}\<close>; serial
  type 12 is rejected under \<^verbatim>\<open>{"string"}\<close> as claimed, but with \<^verbatim>\<open>NameError\<close>.
\<close>

theorem string_constraint_polarity:
  "parse_record [0x00, 3, 0, 2, 15, 0x41] 0 None None = Inr ([15], [VBytes [0x41]])
   \<and> parse_record [0x00, 3, 0, 2, 15, 0x41] 0 None (Some [Some {StrMember ''string''}]) = Inl NameError
   \<and> parse_record [0x00, 2, 0, 2, 14] 0 None (Some [Some {StrMember ''string''}]) = Inr ([14], [VBytes []])
   \<and> parse_record [0x00, 2, 0, 2, 12] 0 None (Some [Some {StrMember ''string''}]) = Inl NameError"
  by code_simp

text \<open>
  Claim C7. The claim: for every buffer and start offset \<^verbatim>\<open>parse_record\<close> returns a
  record or raises \<^verbatim>\<open>SqliteParseError\<close>, and nothing else; the docstring says "If any of
  these checks fail, a SqliteParseError is raised". Line 50 reads \<^verbatim>\<open>buf[i]\<close> with no
  bounds check, where \<^verbatim>\<open>parse_varint\<close> and \<^verbatim>\<open>len_check\<close> compare with \<^verbatim>\<open>len(buf)\<close>
  first: an empty buffer, or a start offset at the end of the buffer, raises
  \<^verbatim>\<open>IndexError\<close>. A failed type-set check raises \<^verbatim>\<open>NameError\<close>.
\<close>

theorem parse_record_other_exceptions:
  "parse_record [] 0 None None = Inl IndexError
   \<and> parse_record [0x00, 3, 0, 2, 1, 0x2A] 6 None None = Inl IndexError
   \<and> parse_record [0x00, 3, 0, 2, 1, 0x2A] 0 None (Some [Some {IntMember 2}]) = Inl NameError"
  by code_simp

lemma parse_columns_length:
  "parse_columns buf serial_types i0 vals0 = Inr (i, vals)
   \<Longrightarrow> length vals = length vals0 + length serial_types"
proof (induction serial_types arbitrary: i0 vals0)
  case Nil
  then show ?case by simp
next
  case (Cons stype rest)
  from Cons.prems obtain v l where "parse_column stype buf i0 = Inr (v, l)"
    and "parse_columns buf rest (i0 + l) (vals0 @ [v]) = Inr (i, vals)"
    by (auto split: sum.splits)
  from Cons.IH [OF this(2)] show ?case by simp
qed

lemma record_sequences_same_length:
  assumes "parse_record buf start n_cols type_sets = Inr (serial_types, vals)"
  shows "length vals = length serial_types"
proof -
  from assms obtain i0 i where "parse_columns buf serial_types i0 [] = Inr (i, vals)"
    by (auto simp: parse_record_def split: sum.splits if_splits)
  from parse_columns_length [OF this] show ?thesis by simp
qed

text \<open>
  Claim C8. When the header has been parsed, the type sets have been checked and every
  column has been decoded, leaving the offset at \<open>i\<close>, \<^verbatim>\<open>parse_record\<close> returns the
  record exactly when \<open>i - header_start\<close> is the value of the payload-length varint, and
  fails with the payload-length error otherwise.
\<close>

theorem payload_length_cross_check:
  assumes "parse_header buf start n_cols = Inr (payload_len, header_start, i0, serial_types)"
    and "check_types serial_types type_sets = Inr ()"
    and "parse_columns buf serial_types i0 [] = Inr (i, vals)"
  shows "parse_record buf start n_cols type_sets =
           (if i - header_start = payload_len then Inr (serial_types, vals)
            else Inl (SqliteParseError PayloadLengthMismatch))"
  using assms by (simp add: parse_record_def)

theorem payload_length_cross_check_witness:
  "parse_header [0x00, 3, 0, 2, 1, 0x2A] 0 None = Inr (3, 3, 5, [1])
   \<and> check_types [1] None = Inr ()
   \<and> parse_columns [0x00, 3, 0, 2, 1, 0x2A] [1] 5 [] = Inr (6, [VInt 0])
   \<and> parse_record [0x00, 3, 0, 2, 1, 0x2A] 0 None None = Inr ([1], [VInt 0])
   \<and> parse_header [0x00, 4, 0, 2, 1, 0x2A] 0 None = Inr (4, 3, 5, [1])
   \<and> parse_columns [0x00, 4, 0, 2, 1, 0x2A] [1] 5 [] = Inr (6, [VInt 0])
   \<and> parse_record [0x00, 4, 0, 2, 1, 0x2A] 0 None None = Inl (SqliteParseError PayloadLengthMismatch)"
proof -
  have h1: "parse_header [0x00, 3, 0, 2, 1, 0x2A] 0 None = Inr (3, 3, 5, [1])" by code_simp
  have h2: "check_types [1] None = Inr ()" by code_simp
  have h3: "parse_columns [0x00, 3, 0, 2, 1, 0x2A] [1] 5 [] = Inr (6, [VInt 0])" by code_simp
  have g1: "parse_header [0x00, 4, 0, 2, 1, 0x2A] 0 None = Inr (4, 3, 5, [1])" by code_simp
  have g3: "parse_columns [0x00, 4, 0, 2, 1, 0x2A] [1] 5 [] = Inr (6, [VInt 0])" by code_simp
  from payload_length_cross_check [OF h1 h2 h3] payload_length_cross_check [OF g1 h2 g3]
  show ?thesis using h1 h2 h3 g1 g3 by simp
qed

lemma zip_take_length: "zip xs (take (length xs) ys) = zip xs ys"
proof (induction xs arbitrary: ys)
  case Nil
  show ?case by simp
next
  case (Cons x xs)
  then show ?case by (cases ys) simp_all
qed

text \<open>
  Claim C10. When \<^verbatim>\<open>type_sets\<close> has more entries than the record has columns, the
  entries past the last column are ignored (\<^verbatim>\<open>zip\<close> stops at the shorter sequence): the
  result of \<^verbatim>\<open>parse_record\<close>, a record or a failure, is the one for \<^verbatim>\<open>type_sets\<close> cut
  to the number of columns.
\<close>

theorem extra_type_sets_ignored:
  assumes "parse_header buf start n_cols = Inr (payload_len, header_start, i0, serial_types)"
    and "length serial_types < length type_sets"
  shows "parse_record buf start n_cols (Some type_sets)
       = parse_record buf start n_cols (Some (take (length serial_types) type_sets))"
  using assms(1) by (simp add: parse_record_def check_types_def zip_take_length)

theorem extra_type_sets_ignored_witness:
  "parse_header [0x00, 3, 0, 2, 1, 0x2A] 0 None = Inr (3, 3, 5, [1])
   \<and> length [1::int] < length [Some {IntMember 1}, Some {IntMember 7}]
   \<and> take (length [1::int]) [Some {IntMember 1}, Some {IntMember 7}] = [Some {IntMember 1}]
   \<and> parse_record [0x00, 3, 0, 2, 1, 0x2A] 0 None (Some [Some {IntMember 1}, Some {IntMember 7}])
       = parse_record [0x00, 3, 0, 2, 1, 0x2A] 0 None (Some [Some {IntMember 1}])"
proof -
  have h1: "parse_header [0x00, 3, 0, 2, 1, 0x2A] 0 None = Inr (3, 3, 5, [1])" by code_simp
  have h2: "length [1::int] < length [Some {IntMember 1}, Some {IntMember 7}]" by simp
  from extra_type_sets_ignored [OF h1 h2] show ?thesis using h1 by simp
qed

section \<open>The backward scanner\<close>

lemma scan_back_index:
  "scan_back buf pos j = Inr (p, j') \<Longrightarrow> j < 8 \<Longrightarrow> j' < 8"
proof (induction buf pos j rule: scan_back.induct)
  case (1 buf pos j)
  note eq = scan_back.simps [of buf pos j]
  show ?case
  proof (cases "py_index buf (pos - 1)")
    case (Inl e)
    with eq "1.prems" show ?thesis by simp
  next
    case (Inr c)
    show ?thesis
    proof (cases "uint c AND 0x80 \<noteq> 0x80")
      case True
      with eq Inr "1.prems" show ?thesis by simp
    next
      case cont: False
      show ?thesis
      proof (cases "Suc j < 8")
        case True
        with eq Inr cont "1.prems" have "scan_back buf (pos - 1) (Suc j) = Inr (p, j')" by simp
        from "1.IH" [OF Inr _ True this True] cont show ?thesis by simp
      next
        case False
        with eq Inr cont "1.prems" show ?thesis by simp
      qed
    qed
  qed
qed

lemma high_bit_terminated_never_located:
  assumes "0 < n" and "py_index buf (start - 1) = Inr c" and "uint c AND 0x80 \<noteq> 0"
  shows "\<exists>e. count_varints buf start n True = Inl e"
proof -
  from assms(1) obtain k where k: "nat n = Suc k" by (cases "nat n") auto
  show ?thesis
  proof (cases "scan_back buf (start - 1) 0")
    case (Inl e)
    with assms k show ?thesis by (simp add: count_varints_def)
  next
    case (Inr r)
    obtain p j where r: "r = (p, j)" by (cases r)
    with Inr scan_back_index [of buf "start - 1" 0 p j] have "j < 8" by simp
    with assms k Inr r show ?thesis by (simp add: count_varints_def)
  qed
qed

text \<open>
  Claim C9. The claim: walking back over a varint whose last byte has the \<open>0x80\<close> bit
  set, \<^verbatim>\<open>count_varints\<close> fails with the malformed-varint error exactly when the varint
  does not span 9 bytes, and returns the start of a valid 9-byte varint; the comment in
  the loop says "If the last byte of a varint has bit 0x80 set, it must be a nine byte
  varint". The inner loop is \<^verbatim>\<open>for j in range(8)\<close>, so \<open>j + 1\<close> is at most 8 and the
  test \<^verbatim>\<open>j+1 != 9\<close> always holds (\<open>scan_back_index\<close>): every varint whose last byte has
  the bit set is refused (\<open>high_bit_terminated_never_located\<close>). In the buffer below a
  9-byte varint, eight continuation bytes and a last byte \<open>0x80\<close>, starts at offset 1
  and ends at offset 10.
\<close>

theorem nine_byte_varint_scan_fails:
  "count_varints [0x00, 0x81, 0x81, 0x81, 0x81, 0x81, 0x81, 0x81, 0x81, 0x80] 10 1 True
     = Inl (SqliteParseError MalformedVarint)"
  by code_simp

end
